theory Spec2Isabelle
  imports Main "HOL-Library.Sublist"
begin

section \<open>Markdown to image: the layout and pagination engine of md_to_image.py\<close>

text \<open>
  The development embeds the layout core of \<^verbatim>\<open>scripts/md_to_image.py\<close>: the newline
  preprocessing of \<^verbatim>\<open>MarkdownToImage.convert\<close>, the inline tokenizer
  \<^verbatim>\<open>_parse_inline_format\<close>, the two wrappers \<^verbatim>\<open>_wrap_text\<close> and
  \<^verbatim>\<open>_wrap_formatted_text\<close>, the height estimator \<^verbatim>\<open>_calculate_element_height\<close>,
  the y coordinate returned by \<^verbatim>\<open>_render_element\<close> and the page loop of
  \<^verbatim>\<open>ImageRenderer.render\<close>. Python strings are lists of characters, Python integers
  are \<open>int\<close>, indices and lengths are \<open>nat\<close>. Font metrics come from the imaging library,
  so the text width is a parameter \<open>tw\<close> of every function that measures.
\<close>

subsection \<open>Data model\<close>

text \<open>The fonts loaded by \<^verbatim>\<open>_load_fonts\<close>.\<close>

datatype font = FontTitle | FontH1 | FontH2 | FontH3 | FontBody | FontCode | FontSmall | FontBold

text \<open>The value of the \<^verbatim>\<open>'type'\<close> key of a segment dictionary.\<close>

datatype seg_type = Normal | Bold | Italic | BoldItalic | Code | Highlight

text \<open>A segment dictionary \<^verbatim>\<open>{'type': t, 'content': c}\<close>.\<close>

datatype segment = Segment (stype: seg_type) (content: string)

text \<open>
  An element dictionary produced by \<^verbatim>\<open>MarkdownParser.parse\<close>: the constructor is the
  \<^verbatim>\<open>'type'\<close> key, the arguments are \<^verbatim>\<open>'content'\<close> (and \<^verbatim>\<open>'language'\<close> for code)
  or \<^verbatim>\<open>'items'\<close>.
\<close>

datatype element =
    H1 string
  | H2 string
  | H3 string
  | Paragraph string
  | CodeBlock string string
  | Quote string
  | ListE "string list"
  | OrderedList "string list"
  | Hr

text \<open>
  The geometry and spacing fields of \<^verbatim>\<open>StyleConfig\<close>. Colours, font sizes and font
  paths do not enter any layout computation and are left out.
\<close>

record style_config =
  width :: int
  height :: int
  margin_left :: int
  margin_right :: int
  margin_top :: int
  margin_bottom :: int
  h1_line_spacing :: int
  h2_line_spacing :: int
  h3_line_spacing :: int
  body_line_spacing :: int
  code_line_spacing :: int
  paragraph_spacing :: int

definition default_style :: style_config where
  "default_style = \<lparr> width = 900, height = 1600,
     margin_left = 50, margin_right = 50, margin_top = 50, margin_bottom = 50,
     h1_line_spacing = 72, h2_line_spacing = 64, h3_line_spacing = 56,
     body_line_spacing = 64, code_line_spacing = 50, paragraph_spacing = 40 \<rparr>"

subsection \<open>Python string primitives\<close>

definition NL :: char where
  "NL = CHR 0x0A"

text \<open>\<^verbatim>\<open>text[a:b]\<close> for non-negative \<open>a\<close> and \<open>b\<close>: the slice is clipped to the string.\<close>

definition py_slice :: "string \<Rightarrow> nat \<Rightarrow> nat \<Rightarrow> string" where
  "py_slice text a b = take (b - a) (drop a text)"

text \<open>The index of the first occurrence of \<open>sub\<close> in a string, if any.\<close>

fun find_sub :: "string \<Rightarrow> string \<Rightarrow> nat option" where
  "find_sub sub [] = (if sub = [] then Some 0 else None)"
| "find_sub sub (x # xs) =
     (if prefix sub (x # xs) then Some 0 else map_option Suc (find_sub sub xs))"

text \<open>\<^verbatim>\<open>text.find(sub, start)\<close>: \<open>None\<close> stands for the result \<open>-1\<close>.\<close>

definition py_find :: "string \<Rightarrow> string \<Rightarrow> nat \<Rightarrow> nat option" where
  "py_find text sub start =
     (if length text < start then None
      else map_option (\<lambda>k. start + k) (find_sub sub (drop start text)))"

text \<open>\<^verbatim>\<open>text.split('\n')\<close>: always at least one piece.\<close>

fun split_nl_aux :: "string \<Rightarrow> string \<Rightarrow> string list" where
  "split_nl_aux acc [] = [acc]"
| "split_nl_aux acc (c # cs) =
     (if c = NL then acc # split_nl_aux [] cs else split_nl_aux (acc @ [c]) cs)"

definition split_nl :: "string \<Rightarrow> string list" where
  "split_nl text = split_nl_aux [] text"

subsection \<open>Preprocessing of \<^verbatim>\<open>MarkdownToImage.convert\<close>\<close>

text \<open>
  \<^verbatim>\<open>re.sub(r'([^\n])\n([^\n])', r'\1\n\n\2', md_content)\<close>: the matches are found from
  left to right and do not overlap, so the scan resumes after the third character of a match.
\<close>

fun promote_newlines :: "string \<Rightarrow> string" where
  "promote_newlines (a # b # c # rest) =
     (if a \<noteq> NL \<and> b = NL \<and> c \<noteq> NL then a # NL # NL # c # promote_newlines rest
      else a # promote_newlines (b # c # rest))"
| "promote_newlines s = s"

subsection \<open>The inline tokenizer \<^verbatim>\<open>_parse_inline_format\<close>\<close>

text \<open>The characters of \<^verbatim>\<open>'*`_='\<close>.\<close>

definition special :: "char \<Rightarrow> bool" where
  "special c = (c = CHR ''*'' \<or> c = CHR 0x60 \<or> c = CHR ''_'' \<or> c = CHR ''='')"

text \<open>
  One attempt of the loop body for a delimiter \<open>d\<close> of two or three characters
  (\<^verbatim>\<open>***\<close>, \<^verbatim>\<open>**\<close>, \<^verbatim>\<open>==\<close>, \<^verbatim>\<open>__\<close>): the length test, the comparison of the slice,
  the search for the closing delimiter. The result is the segments appended (none for an
  empty content) and the new index; \<open>None\<close> means \<^verbatim>\<open>matched\<close> stays false.
\<close>

definition try_pair :: "string \<Rightarrow> nat \<Rightarrow> string \<Rightarrow> seg_type \<Rightarrow> (segment list \<times> nat) option" where
  "try_pair text i d t =
     (let k = length d in
      if i + 2 * k \<le> length text \<and> py_slice text i (i + k) = d then
        (case py_find text d (i + k) of
           Some e \<Rightarrow>
             (let c = py_slice text (i + k) e
              in Some (if c \<noteq> [] then [Segment t c] else [], e + k))
         | None \<Rightarrow> None)
      else None)"

text \<open>The attempt for \<^verbatim>\<open>*italic*\<close>.\<close>

definition try_italic_star :: "string \<Rightarrow> nat \<Rightarrow> (segment list \<times> nat) option" where
  "try_italic_star text i =
     (if i + 2 \<le> length text \<and> text ! i = CHR ''*'' \<and> py_slice text i (i + 2) \<noteq> ''**'' then
        (case py_find text ''*'' (i + 1) of
           Some e \<Rightarrow>
             (if py_slice text e (e + 2) \<noteq> ''**'' then
                (let c = py_slice text (i + 1) e
                 in Some (if c \<noteq> [] then [Segment Italic c] else [], e + 1))
              else None)
         | None \<Rightarrow> None)
      else None)"

text \<open>The attempt for inline code between backquotes.\<close>

definition try_code :: "string \<Rightarrow> nat \<Rightarrow> (segment list \<times> nat) option" where
  "try_code text i =
     (if text ! i = CHR 0x60 then
        (case py_find text [CHR 0x60] (i + 1) of
           Some e \<Rightarrow>
             (let c = py_slice text (i + 1) e
              in Some (if c \<noteq> [] then [Segment Code c] else [], e + 1))
         | None \<Rightarrow> None)
      else None)"

text \<open>The attempt for \<^verbatim>\<open>_italic_\<close>.\<close>

definition try_italic_under :: "string \<Rightarrow> nat \<Rightarrow> (segment list \<times> nat) option" where
  "try_italic_under text i =
     (if text ! i = CHR ''_'' \<and> py_slice text i (i + 2) \<noteq> ''__'' then
        (case py_find text ''_'' (i + 1) of
           Some e \<Rightarrow>
             (if py_slice text e (e + 2) \<noteq> ''__'' then
                (let c = py_slice text (i + 1) e
                 in Some (if c \<noteq> [] then [Segment Italic c] else [], e + 1))
              else None)
         | None \<Rightarrow> None)
      else None)"

text \<open>The first attempt that matches wins, in the order of the source.\<close>

fun first_some :: "'a option list \<Rightarrow> 'a option" where
  "first_some [] = None"
| "first_some (None # xs) = first_some xs"
| "first_some (Some r # xs) = Some r"

definition match_at :: "string \<Rightarrow> nat \<Rightarrow> (segment list \<times> nat) option" where
  "match_at text i = first_some
     [try_pair text i ''***'' BoldItalic,
      try_pair text i ''**'' Bold,
      try_italic_star text i,
      try_code text i,
      try_pair text i ''=='' Highlight,
      try_pair text i ''__'' Bold,
      try_italic_under text i]"

text \<open>
  The unmatched case: \<^verbatim>\<open>next_special\<close> is the first position after \<open>i\<close> holding a special
  character, or the length of the text.
\<close>

definition next_special :: "string \<Rightarrow> nat \<Rightarrow> nat" where
  "next_special text i = i + 1 + length (takeWhile (\<lambda>c. \<not> special c) (drop (i + 1) text))"

lemma py_find_ge: "py_find text sub start = Some e \<Longrightarrow> start \<le> e"
  by (auto simp: py_find_def split: if_splits)

lemma try_pair_advances:
  assumes "try_pair text i d t = Some (segs, j)" and "d \<noteq> []"
  shows "i < j"
proof -
  from assms(1) obtain e where e: "py_find text d (i + length d) = Some e" and j: "j = e + length d"
    by (auto simp: try_pair_def Let_def split: if_splits option.splits)
  from e have "i + length d \<le> e" by (rule py_find_ge)
  with j assms(2) show ?thesis by (cases d) auto
qed

lemma try_italic_star_advances:
  assumes "try_italic_star text i = Some (segs, j)"
  shows "i < j"
proof -
  from assms obtain e where e: "py_find text ''*'' (i + 1) = Some e" and j: "j = e + 1"
    by (auto simp: try_italic_star_def Let_def split: if_splits option.splits)
  from e have "i + 1 \<le> e" by (rule py_find_ge)
  with j show ?thesis by simp
qed

lemma try_code_advances:
  assumes "try_code text i = Some (segs, j)"
  shows "i < j"
proof -
  from assms obtain e where e: "py_find text [CHR 0x60] (i + 1) = Some e" and j: "j = e + 1"
    by (auto simp: try_code_def Let_def split: if_splits option.splits)
  from e have "i + 1 \<le> e" by (rule py_find_ge)
  with j show ?thesis by simp
qed

lemma try_italic_under_advances:
  assumes "try_italic_under text i = Some (segs, j)"
  shows "i < j"
proof -
  from assms obtain e where e: "py_find text ''_'' (i + 1) = Some e" and j: "j = e + 1"
    by (auto simp: try_italic_under_def Let_def split: if_splits option.splits)
  from e have "i + 1 \<le> e" by (rule py_find_ge)
  with j show ?thesis by simp
qed

lemma first_some_cases:
  "first_some xs = Some r \<Longrightarrow> Some r \<in> set xs"
  by (induction xs rule: first_some.induct) auto

lemma match_at_advances:
  assumes "match_at text i = Some (segs, j)"
  shows "i < j"
proof -
  from assms have "Some (segs, j) \<in> set
     [try_pair text i ''***'' BoldItalic,
      try_pair text i ''**'' Bold,
      try_italic_star text i,
      try_code text i,
      try_pair text i ''=='' Highlight,
      try_pair text i ''__'' Bold,
      try_italic_under text i]"
    unfolding match_at_def by (rule first_some_cases)
  then consider "try_pair text i ''***'' BoldItalic = Some (segs, j)"
    | "try_pair text i ''**'' Bold = Some (segs, j)"
    | "try_italic_star text i = Some (segs, j)"
    | "try_code text i = Some (segs, j)"
    | "try_pair text i ''=='' Highlight = Some (segs, j)"
    | "try_pair text i ''__'' Bold = Some (segs, j)"
    | "try_italic_under text i = Some (segs, j)"
    by auto
  then show ?thesis
  proof cases
    case 1 then show ?thesis by (rule try_pair_advances) simp
  next
    case 2 then show ?thesis by (rule try_pair_advances) simp
  next
    case 3 then show ?thesis by (rule try_italic_star_advances)
  next
    case 4 then show ?thesis by (rule try_code_advances)
  next
    case 5 then show ?thesis by (rule try_pair_advances) simp
  next
    case 6 then show ?thesis by (rule try_pair_advances) simp
  next
    case 7 then show ?thesis by (rule try_italic_under_advances)
  qed
qed

lemma next_special_advances: "i < next_special text i"
  by (simp add: next_special_def)

text \<open>The \<^verbatim>\<open>while i < n\<close> loop; every iteration moves the index forward.\<close>

function parse_loop :: "string \<Rightarrow> nat \<Rightarrow> segment list \<Rightarrow> segment list" where
  "parse_loop text i segments =
     (if i < length text then
        (case match_at text i of
           Some (segs, j) \<Rightarrow> parse_loop text j (segments @ segs)
         | None \<Rightarrow>
             parse_loop text (next_special text i)
               (segments @ [Segment Normal (py_slice text i (next_special text i))]))
      else segments)"
  by pat_completeness auto
termination
proof (relation "measure (\<lambda>(s, i, segments). length s - i)")
  show "wf (measure (\<lambda>(s, i, segments). length s - i))" by simp
next
  fix s :: string and i :: nat and segments :: "segment list"
  assume "i < length s"
  moreover have "i < next_special s i" by (rule next_special_advances)
  ultimately show "((s, next_special s i,
      segments @ [Segment Normal (py_slice s i (next_special s i))]), (s, i, segments))
    \<in> measure (\<lambda>(s, i, segments). length s - i)" by simp
next
  fix s :: string and i :: nat and segments x2 x y
  assume "i < length s" "match_at s i = Some x2" "(x, y) = x2"
  then have "i < y" using match_at_advances [of s i x y] by simp
  with \<open>i < length s\<close> show "((s, y, segments @ x), (s, i, segments))
    \<in> measure (\<lambda>(s, i, segments). length s - i)" by simp
qed

declare parse_loop.simps [simp del]

text \<open>The merge loop: empty segments are dropped, a normal segment joins a normal predecessor.\<close>

definition merge_step :: "segment list \<Rightarrow> segment \<Rightarrow> segment list" where
  "merge_step merged seg =
     (if content seg \<noteq> [] then
        (if merged \<noteq> [] \<and> stype seg = Normal \<and> stype (last merged) = Normal then
           butlast merged @ [Segment Normal (content (last merged) @ content seg)]
         else merged @ [seg])
      else merged)"

definition parse_inline_format :: "string \<Rightarrow> segment list" where
  "parse_inline_format text =
     (let segments = parse_loop text 0 [];
          merged = foldl merge_step [] segments
      in if merged \<noteq> [] then merged else [Segment Normal text])"

subsection \<open>Plain wrapping: \<^verbatim>\<open>_wrap_text\<close>\<close>

text \<open>
  \<open>tw font text\<close> is the width component of \<^verbatim>\<open>_get_text_size(text, font)\<close>. The loop
  state is \<^verbatim>\<open>(lines, current_line)\<close>.
\<close>

definition wrap_text_step ::
  "(font \<Rightarrow> string \<Rightarrow> int) \<Rightarrow> font \<Rightarrow> int \<Rightarrow> string list \<times> string \<Rightarrow> char \<Rightarrow> string list \<times> string" where
  "wrap_text_step tw fnt max_width st ch =
     (case st of (lines, current_line) \<Rightarrow>
        (let test_line = current_line @ [ch] in
         if tw fnt test_line \<le> max_width then (lines, test_line)
         else ((if current_line \<noteq> [] then lines @ [current_line] else lines), [ch])))"

definition wrap_text :: "(font \<Rightarrow> string \<Rightarrow> int) \<Rightarrow> string \<Rightarrow> font \<Rightarrow> int \<Rightarrow> string list" where
  "wrap_text tw text fnt max_width =
     (case foldl (wrap_text_step tw fnt max_width) ([], []) text of
        (lines, current_line) \<Rightarrow>
          (let lines' = (if current_line \<noteq> [] then lines @ [current_line] else lines)
           in if lines' \<noteq> [] then lines' else if text \<noteq> [] then [text] else []))"

subsection \<open>Formatted wrapping: \<^verbatim>\<open>_wrap_formatted_text\<close>\<close>

definition is_formatted :: "seg_type \<Rightarrow> bool" where
  "is_formatted t = (t = Bold \<or> t = Italic \<or> t = BoldItalic \<or> t = Highlight \<or> t = Code)"

text \<open>The font chosen for a segment: bold and code have their own, all others the font passed in.\<close>

definition seg_font :: "font \<Rightarrow> seg_type \<Rightarrow> font" where
  "seg_font fnt t = (if t = Bold then FontBold else if t = Code then FontCode else fnt)"

text \<open>
  The idiom used twice in the source: join the text to the last segment of the current line
  when that segment has the same type, otherwise append a new segment.
\<close>

definition add_to_line :: "segment list \<Rightarrow> seg_type \<Rightarrow> string \<Rightarrow> segment list" where
  "add_to_line current_line t c =
     (if current_line \<noteq> [] \<and> stype (last current_line) = t then
        butlast current_line @ [Segment t (content (last current_line) @ c)]
      else current_line @ [Segment t c])"

type_synonym wrap_state = "segment list list \<times> segment list \<times> int"

text \<open>The inner \<^verbatim>\<open>while char_idx < len(content)\<close> loop, one character per iteration.\<close>

fun split_chars ::
  "(font \<Rightarrow> string \<Rightarrow> int) \<Rightarrow> font \<Rightarrow> int \<Rightarrow> seg_type \<Rightarrow> string \<Rightarrow> wrap_state \<Rightarrow> wrap_state" where
  "split_chars tw sf max_width t [] st = st"
| "split_chars tw sf max_width t (ch # rest) (lines, current_line, current_width) =
     (let char_width = tw sf [ch] in
      if current_width + char_width \<le> max_width then
        split_chars tw sf max_width t rest
          (lines, add_to_line current_line t [ch], current_width + char_width)
      else
        split_chars tw sf max_width t rest
          ((if current_line \<noteq> [] then lines @ [current_line] else lines),
           [Segment t [ch]], char_width))"

text \<open>The body of \<^verbatim>\<open>for seg in segments\<close>.\<close>

definition wrap_step ::
  "(font \<Rightarrow> string \<Rightarrow> int) \<Rightarrow> font \<Rightarrow> int \<Rightarrow> wrap_state \<Rightarrow> segment \<Rightarrow> wrap_state" where
  "wrap_step tw fnt max_width st seg =
     (case st of (lines, current_line, current_width) \<Rightarrow>
        (let seg_type = stype seg;
             c = content seg;
             sf = seg_font fnt seg_type;
             seg_width = tw sf c
         in if current_width + seg_width \<le> max_width then
              (lines, add_to_line current_line seg_type c, current_width + seg_width)
            else if is_formatted seg_type \<and> seg_width \<le> max_width then
              ((if current_line \<noteq> [] then lines @ [current_line] else lines),
               [Segment seg_type c], seg_width)
            else split_chars tw sf max_width seg_type c (lines, current_line, current_width)))"

definition wrap_loop ::
  "(font \<Rightarrow> string \<Rightarrow> int) \<Rightarrow> font \<Rightarrow> int \<Rightarrow> segment list \<Rightarrow> wrap_state" where
  "wrap_loop tw fnt max_width segments = foldl (wrap_step tw fnt max_width) ([], [], 0) segments"

definition wrap_formatted_text ::
  "(font \<Rightarrow> string \<Rightarrow> int) \<Rightarrow> segment list \<Rightarrow> font \<Rightarrow> int \<Rightarrow> segment list list" where
  "wrap_formatted_text tw segments fnt max_width =
     (case wrap_loop tw fnt max_width segments of
        (lines, current_line, current_width) \<Rightarrow>
          (let lines' = (if current_line \<noteq> [] then lines @ [current_line] else lines)
           in if lines' \<noteq> [] then lines' else [[]]))"

subsection \<open>The height estimator \<^verbatim>\<open>_calculate_element_height\<close>\<close>

text \<open>\<^verbatim>\<open>str(n)\<close> for a natural number, for the prefix of an ordered list item.\<close>

fun str_nat :: "nat \<Rightarrow> string" where
  "str_nat n =
     (if n < 10 then [char_of (48 + n)]
      else str_nat (n div 10) @ [char_of (48 + n mod 10)])"

declare str_nat.simps [simp del]

definition ordered_prefix :: "nat \<Rightarrow> string" where
  "ordered_prefix i = str_nat (i + 1) @ ''. ''"

fun calculate_element_height ::
  "(font \<Rightarrow> string \<Rightarrow> int) \<Rightarrow> style_config \<Rightarrow> element \<Rightarrow> int \<Rightarrow> int" where
  "calculate_element_height tw style (H1 c) max_width =
     int (length (wrap_text tw c FontH1 max_width)) * h1_line_spacing style"
| "calculate_element_height tw style (H2 c) max_width =
     int (length (wrap_text tw c FontH2 max_width)) * h2_line_spacing style"
| "calculate_element_height tw style (H3 c) max_width =
     int (length (wrap_text tw c FontH3 max_width)) * h3_line_spacing style"
| "calculate_element_height tw style (Paragraph c) max_width =
     (let segments = parse_inline_format c;
          lines = wrap_formatted_text tw segments FontBody max_width
      in int (length lines) * body_line_spacing style + paragraph_spacing style)"
| "calculate_element_height tw style (CodeBlock c lang) max_width =
     (let lines = split_nl c
      in int (length lines) * code_line_spacing style + 40)"
| "calculate_element_height tw style (Quote c) max_width =
     (let lines = wrap_text tw c FontBody (max_width - 40)
      in int (length lines) * body_line_spacing style + 30)"
| "calculate_element_height tw style (ListE items) max_width =
     foldl (\<lambda>h item.
        h + (int (length (wrap_text tw item FontBody (max_width - 40)))
               * body_line_spacing style + 10)) 0 items + 10"
| "calculate_element_height tw style (OrderedList items) max_width =
     foldl (\<lambda>h (i, item).
        h + (int (length (wrap_text tw (ordered_prefix i @ item) FontBody (max_width - 40)))
               * body_line_spacing style + 10)) 0 (enumerate 0 items) + 10"
| "calculate_element_height tw style Hr max_width = 40"

subsection \<open>The y coordinate returned by \<^verbatim>\<open>_render_element\<close>\<close>

text \<open>
  Only the vertical position is followed: the draw calls write to the canvas and do not
  influence it. Every \<^verbatim>\<open>for line in lines: y += spacing\<close> is a fold over the lines.
\<close>

definition advance_lines :: "int \<Rightarrow> 'a list \<Rightarrow> int \<Rightarrow> int" where
  "advance_lines spacing lines y = foldl (\<lambda>y line. y + spacing) y lines"

text \<open>
  The bullet is one character of the Python string (U+2022). A \<open>char\<close> has eight bits, so
  one stand-in character represents it, followed by the space.
\<close>

definition bullet :: string where
  "bullet = [CHR 0x95, CHR '' '']"

text \<open>The prefix is joined to a leading normal segment, otherwise inserted as a new one.\<close>

definition add_prefix :: "string \<Rightarrow> segment list \<Rightarrow> segment list" where
  "add_prefix p segments =
     (case segments of
        [] \<Rightarrow> [Segment Normal p]
      | seg # rest \<Rightarrow>
          (if stype seg = Normal then Segment Normal (p @ content seg) # rest
           else Segment Normal p # seg # rest))"

fun render_element ::
  "(font \<Rightarrow> string \<Rightarrow> int) \<Rightarrow> style_config \<Rightarrow> element \<Rightarrow> int \<Rightarrow> int \<Rightarrow> int" where
  "render_element tw style (H1 c) y max_width =
     advance_lines (h1_line_spacing style) (wrap_text tw c FontH1 max_width) y + 20"
| "render_element tw style (H2 c) y max_width =
     advance_lines (h2_line_spacing style) (wrap_text tw c FontH2 max_width) y + 15"
| "render_element tw style (H3 c) y max_width =
     advance_lines (h3_line_spacing style) (wrap_text tw c FontH3 max_width) y + 10"
| "render_element tw style (Paragraph c) y max_width =
     (let segments = parse_inline_format c;
          lines = wrap_formatted_text tw segments FontBody max_width
      in advance_lines (body_line_spacing style) lines y + paragraph_spacing style)"
| "render_element tw style (CodeBlock c lang) y max_width =
     (let lines = split_nl c;
          block_height = int (length lines) * code_line_spacing style + 30
      in y + block_height + 20)"
| "render_element tw style (Quote c) y max_width =
     (let quote_width = max_width - 30;
          segments = parse_inline_format c;
          lines = wrap_formatted_text tw segments FontBody (quote_width - 20);
          quote_height = int (length lines) * body_line_spacing style + 20
      in y + quote_height + 20)"
| "render_element tw style (ListE items) y max_width =
     foldl (\<lambda>y item.
        (let segments = add_prefix bullet (parse_inline_format item);
             lines = wrap_formatted_text tw segments FontBody max_width
         in advance_lines (body_line_spacing style) lines y + 10)) y items + 10"
| "render_element tw style (OrderedList items) y max_width =
     foldl (\<lambda>y (i, item).
        (let segments = add_prefix (ordered_prefix i) (parse_inline_format item);
             lines = wrap_formatted_text tw segments FontBody max_width
         in advance_lines (body_line_spacing style) lines y + 10)) y (enumerate 0 items) + 10"
| "render_element tw style Hr y max_width = y + 40"

subsection \<open>Pagination: the loop of \<^verbatim>\<open>ImageRenderer.render\<close>\<close>

text \<open>
  The state is \<^verbatim>\<open>(pages, page_elements, current_y)\<close>, where \<open>pages\<close> collects the element
  lists handed to \<^verbatim>\<open>_save_page\<close>, in the order of the calls.
\<close>

type_synonym page_state = "element list list \<times> element list \<times> int"

definition render_step ::
  "(font \<Rightarrow> string \<Rightarrow> int) \<Rightarrow> style_config \<Rightarrow> int \<Rightarrow> int \<Rightarrow> page_state \<Rightarrow> element \<Rightarrow> page_state" where
  "render_step tw style content_width max_content_height st element =
     (case st of (pages, page_elements, current_y) \<Rightarrow>
        (let elem_height = calculate_element_height tw style element content_width in
         if current_y + elem_height > max_content_height then
           ((if page_elements \<noteq> [] then pages @ [page_elements] else pages),
            [element], margin_top style + elem_height)
         else (pages, page_elements @ [element], current_y + elem_height)))"

definition render :: "(font \<Rightarrow> string \<Rightarrow> int) \<Rightarrow> style_config \<Rightarrow> element list \<Rightarrow> element list list" where
  "render tw style elements =
     (let content_width = width style - margin_left style - margin_right style;
          safe_bottom_margin = margin_bottom style + 20;
          max_content_height = height style - safe_bottom_margin
      in case foldl (render_step tw style content_width max_content_height)
                ([], [], margin_top style) elements of
           (pages, page_elements, current_y) \<Rightarrow>
             (if page_elements \<noteq> [] then pages @ [page_elements] else pages))"

section \<open>Vocabulary of the properties\<close>

text \<open>The text of a line: the texts of its segments, in order.\<close>

definition line_text :: "segment list \<Rightarrow> string" where
  "line_text line = concat (map content line)"

text \<open>The text held by a wrapper state: the finished lines, then the current line.\<close>

definition state_text :: "wrap_state \<Rightarrow> string" where
  "state_text st = (case st of (lines, current_line, current_width) \<Rightarrow>
     concat (map line_text lines) @ line_text current_line)"

text \<open>
  The measured width of a line: every segment is measured as a whole, in the font the
  wrapper uses for its type.
\<close>

definition line_width :: "(font \<Rightarrow> string \<Rightarrow> int) \<Rightarrow> font \<Rightarrow> segment list \<Rightarrow> int" where
  "line_width tw fnt line = sum_list (map (\<lambda>s. tw (seg_font fnt (stype s)) (content s)) line)"

text \<open>A line that holds one character and nothing else, wider than the limit.\<close>

fun single_wide_char :: "(font \<Rightarrow> string \<Rightarrow> int) \<Rightarrow> font \<Rightarrow> int \<Rightarrow> segment list \<Rightarrow> bool" where
  "single_wide_char tw fnt max_width [Segment t [ch]] = (max_width < tw (seg_font fnt t) [ch])"
| "single_wide_char tw fnt max_width line = False"

text \<open>The width invariant of a line, as the data model states it.\<close>

definition line_ok :: "(font \<Rightarrow> string \<Rightarrow> int) \<Rightarrow> font \<Rightarrow> int \<Rightarrow> segment list \<Rightarrow> bool" where
  "line_ok tw fnt max_width line =
     (line_width tw fnt line \<le> max_width \<or> single_wide_char tw fnt max_width line)"

text \<open>A measure under which a text is never wider than its parts together.\<close>

definition subadditive :: "(font \<Rightarrow> string \<Rightarrow> int) \<Rightarrow> bool" where
  "subadditive tw = (\<forall>f a b. tw f (a @ b) \<le> tw f a + tw f b)"

text \<open>
  The invariant of the wrapper loop behind the width bound: the running sum is at least
  the measured width of the current line, and it is within the limit unless the current
  line is one single wide character.
\<close>

definition width_inv :: "(font \<Rightarrow> string \<Rightarrow> int) \<Rightarrow> font \<Rightarrow> int \<Rightarrow> wrap_state \<Rightarrow> bool" where
  "width_inv tw fnt max_width st = (case st of (lines, current_line, current_width) \<Rightarrow>
     line_width tw fnt current_line \<le> current_width \<and>
     (current_width \<le> max_width \<or> single_wide_char tw fnt max_width current_line) \<and>
     list_all (line_ok tw fnt max_width) lines)"


definition sq_width :: "font \<Rightarrow> string \<Rightarrow> int" where
  "sq_width f s = int (length s) * int (length s)"



text \<open>Two neighbours of the same type in a segment list; two normal neighbours.\<close>

fun consecutive_same_kind :: "segment list \<Rightarrow> bool" where
  "consecutive_same_kind (a # b # rest) = (stype a = stype b \<or> consecutive_same_kind (b # rest))"
| "consecutive_same_kind line = False"

fun consecutive_normal :: "segment list \<Rightarrow> bool" where
  "consecutive_normal (a # b # rest) =
     ((stype a = Normal \<and> stype b = Normal) \<or> consecutive_normal (b # rest))"
| "consecutive_normal line = False"

subsection \<open>The scan loop as a function of the rest of the text\<close>

text \<open>
  The segments the loop produces from the start of a string. The loop at index \<open>i\<close> of a
  text only reads the text from \<open>i\<close> on, so it can be followed on the rest of the text
  (lemma \<open>parse_loop_suffix\<close> below).
\<close>

definition scan :: "string \<Rightarrow> segment list" where
  "scan s = parse_loop s 0 []"

text \<open>The result of an attempt made on the rest of the text, moved back to index \<open>i\<close>.\<close>

definition shift :: "nat \<Rightarrow> (segment list \<times> nat) option \<Rightarrow> (segment list \<times> nat) option" where
  "shift i r = map_option (\<lambda>(sg, j). (sg, i + j)) r"

subsection \<open>Texts with balanced delimiters\<close>

text \<open>
  The delimiter pairs of the tokenizer contract, each with the characters of its marker and
  the kind of span it stands for.
\<close>

datatype marker = Star3 | Star2 | Under2 | Star1 | Under1 | Tick | Eq2

fun delim :: "marker \<Rightarrow> string" where
  "delim Star3 = ''***''"
| "delim Star2 = ''**''"
| "delim Under2 = ''__''"
| "delim Star1 = ''*''"
| "delim Under1 = ''_''"
| "delim Tick = [CHR 0x60]"
| "delim Eq2 = ''==''"


text \<open>
  A text with balanced delimiters is described by its pieces: runs of plain text, and runs
  enclosed in an opening and a closing marker of the same kind. \<open>markup\<close> is the text as
  written, \<open>stripped\<close> is the text with the markers removed.
\<close>

datatype piece = Plain string | Marked marker string

fun piece_markup :: "piece \<Rightarrow> string" where
  "piece_markup (Plain s) = s"
| "piece_markup (Marked m c) = delim m @ c @ delim m"


definition markup :: "piece list \<Rightarrow> string" where
  "markup ps = concat (map piece_markup ps)"










section \<open>Properties\<close>

subsection \<open>Preprocessing\<close>

text \<open>
  Claim C3. The preprocessing is said to turn every single newline between two non-blank
  lines into a blank-line run, also in a sequence of single line breaks such as
  \<^verbatim>\<open>a\nb\nc\<close>. The source comment says the same (every single newline becomes two). The
  substitution consumes the character after the newline, so that character cannot open the
  next match: on \<^verbatim>\<open>a\nb\nc\<close> the second newline stays single.
\<close>

theorem promote_newlines_skips_second_break:
  "promote_newlines ''a\<newline>b\<newline>c'' = ''a\<newline>\<newline>b\<newline>c''"
  by (simp add: NL_def)

subsection \<open>Pagination\<close>

lemma render_step_concat:
  "render_step tw style cw mh (pages, pe, y) e = (pages', pe', y') \<Longrightarrow>
   concat pages' @ pe' = concat pages @ pe @ [e]"
  by (auto simp: render_step_def Let_def split: if_splits)

lemma render_fold_concat:
  "foldl (render_step tw style cw mh) (pages, pe, y) es = (pages', pe', y') \<Longrightarrow>
   concat pages' @ pe' = concat pages @ pe @ es"
proof (induction es arbitrary: pages pe y)
  case Nil
  then show ?case by simp
next
  case (Cons e es)
  obtain p1 pe1 y1 where st: "render_step tw style cw mh (pages, pe, y) e = (p1, pe1, y1)"
    by (cases "render_step tw style cw mh (pages, pe, y) e") auto
  with Cons.prems have "foldl (render_step tw style cw mh) (p1, pe1, y1) es = (pages', pe', y')"
    by simp
  then have "concat pages' @ pe' = (concat p1 @ pe1) @ es" using Cons.IH by simp
  moreover have "concat p1 @ pe1 = concat pages @ pe @ [e]" using st by (rule render_step_concat)
  ultimately show ?case by simp
qed

text \<open>
  Claim C9. The pages, read one after the other, are the input sequence of blocks: the
  pages cut the input into consecutive pieces. So the blocks keep their relative order
  within a page and across pages, and every block of the input stands on exactly one page.
  This holds for every style and every text measure.
\<close>

theorem render_preserves_order: "concat (render tw style elements) = elements"
proof -
  let ?cw = "width style - margin_left style - margin_right style"
  let ?mh = "height style - (margin_bottom style + 20)"
  obtain pages pe y where
    r: "foldl (render_step tw style ?cw ?mh) ([], [], margin_top style) elements = (pages, pe, y)"
    by (cases "foldl (render_step tw style ?cw ?mh) ([], [], margin_top style) elements") auto
  have "concat pages @ pe = elements" using render_fold_concat [OF r] by simp
  with r show ?thesis by (auto simp: render_def Let_def)
qed

subsection \<open>The formatted wrapper\<close>

lemma line_text_add_to_line: "line_text (add_to_line cur t c) = line_text cur @ c"
proof (cases "cur = []")
  case True
  then show ?thesis by (simp add: add_to_line_def line_text_def)
next
  case False
  then obtain ys l where cur: "cur = ys @ [l]" by (metis rev_exhaust)
  then show ?thesis by (simp add: add_to_line_def line_text_def)
qed

lemma line_text_simps [simp]:
  "line_text [] = []" "line_text [seg] = content seg"
  by (simp_all add: line_text_def)

lemma state_text_simp [simp]:
  "state_text (lines, cur, cw) = concat (map line_text lines) @ line_text cur"
  by (simp add: state_text_def)

lemma state_text_split_chars:
  "state_text (split_chars tw sf mw t cs (lines, cur, cw)) = state_text (lines, cur, cw) @ cs"
proof (induction cs arbitrary: lines cur cw)
  case Nil
  then show ?case by simp
next
  case (Cons ch rest)
  show ?case
  proof (cases "cw + tw sf [ch] \<le> mw")
    case True
    then show ?thesis
      using Cons.IH [of lines "add_to_line cur t [ch]" "cw + tw sf [ch]"]
      by (simp add: Let_def line_text_add_to_line)
  next
    case False
    then show ?thesis
      using Cons.IH [of "if cur \<noteq> [] then lines @ [cur] else lines" "[Segment t [ch]]" "tw sf [ch]"]
      by (simp add: Let_def)
  qed
qed

lemma wrap_step_fits:
  "cw + tw (seg_font fnt (stype seg)) (content seg) \<le> mw \<Longrightarrow>
   wrap_step tw fnt mw (lines, cur, cw) seg =
     (lines, add_to_line cur (stype seg) (content seg),
      cw + tw (seg_font fnt (stype seg)) (content seg))"
  by (simp add: wrap_step_def Let_def)

lemma wrap_step_whole:
  "\<not> cw + tw (seg_font fnt (stype seg)) (content seg) \<le> mw \<Longrightarrow>
   is_formatted (stype seg) \<Longrightarrow> tw (seg_font fnt (stype seg)) (content seg) \<le> mw \<Longrightarrow>
   wrap_step tw fnt mw (lines, cur, cw) seg =
     ((if cur \<noteq> [] then lines @ [cur] else lines), [seg],
      tw (seg_font fnt (stype seg)) (content seg))"
  by (simp add: wrap_step_def Let_def)

lemma wrap_step_chars:
  "\<not> cw + tw (seg_font fnt (stype seg)) (content seg) \<le> mw \<Longrightarrow>
   \<not> (is_formatted (stype seg) \<and> tw (seg_font fnt (stype seg)) (content seg) \<le> mw) \<Longrightarrow>
   wrap_step tw fnt mw (lines, cur, cw) seg =
     split_chars tw (seg_font fnt (stype seg)) mw (stype seg) (content seg) (lines, cur, cw)"
  by (auto simp: wrap_step_def Let_def)

lemma state_text_wrap_step:
  "state_text (wrap_step tw fnt mw st seg) = state_text st @ content seg"
proof -
  obtain lines cur cw where st: "st = (lines, cur, cw)" by (cases st) auto
  let ?w = "tw (seg_font fnt (stype seg)) (content seg)"
  consider (fits) "cw + ?w \<le> mw"
    | (whole) "\<not> cw + ?w \<le> mw" "is_formatted (stype seg)" "?w \<le> mw"
    | (chars) "\<not> cw + ?w \<le> mw" "\<not> (is_formatted (stype seg) \<and> ?w \<le> mw)"
    by blast
  then show ?thesis
  proof cases
    case fits
    then show ?thesis by (simp add: st wrap_step_fits line_text_add_to_line)
  next
    case whole
    then show ?thesis by (simp add: st wrap_step_whole)
  next
    case chars
    then have "wrap_step tw fnt mw (lines, cur, cw) seg =
        split_chars tw (seg_font fnt (stype seg)) mw (stype seg) (content seg) (lines, cur, cw)"
      by (rule wrap_step_chars)
    then show ?thesis unfolding st by (simp only: state_text_split_chars)
  qed
qed

lemma state_text_foldl:
  "state_text (foldl (wrap_step tw fnt mw) st segs) = state_text st @ concat (map content segs)"
  by (induction segs arbitrary: st) (simp_all add: state_text_wrap_step)

text \<open>
  Claim C5. Reading the segments of all lines in order gives back the text of the input
  segments, character for character, for every measure and every width. (A segment may be
  cut or joined to a neighbour of the same type; no character is dropped or repeated.)
\<close>

theorem wrap_formatted_text_conserves_text:
  "concat (map line_text (wrap_formatted_text tw segments fnt max_width)) =
   concat (map content segments)"
proof -
  obtain lines cur cw where r: "wrap_loop tw fnt max_width segments = (lines, cur, cw)"
    by (cases "wrap_loop tw fnt max_width segments") auto
  have "state_text (wrap_loop tw fnt max_width segments) = concat (map content segments)"
    unfolding wrap_loop_def by (simp only: state_text_foldl) simp
  with r have "concat (map line_text lines) @ line_text cur = concat (map content segments)"
    by simp
  with r show ?thesis
    by (auto simp: wrap_formatted_text_def Let_def)
qed

lemma line_width_simps [simp]:
  "line_width tw fnt [] = 0"
  "line_width tw fnt (seg # line) =
     tw (seg_font fnt (stype seg)) (content seg) + line_width tw fnt line"
  "line_width tw fnt (xs @ ys) = line_width tw fnt xs + line_width tw fnt ys"
  by (simp_all add: line_width_def)

lemma line_width_add_to_line:
  assumes "subadditive tw"
  shows "line_width tw fnt (add_to_line cur t c) \<le> line_width tw fnt cur + tw (seg_font fnt t) c"
proof (cases "cur = []")
  case True
  then show ?thesis by (simp add: add_to_line_def)
next
  case False
  then obtain ys l where cur: "cur = ys @ [l]" by (metis rev_exhaust)
  from assms have "tw (seg_font fnt t) (content l @ c) \<le>
      tw (seg_font fnt t) (content l) + tw (seg_font fnt t) c"
    by (simp add: subadditive_def)
  then show ?thesis by (simp add: cur add_to_line_def)
qed

lemma width_inv_line_ok:
  assumes "line_width tw fnt cur \<le> cw"
    and "cw \<le> mw \<or> single_wide_char tw fnt mw cur"
  shows "line_ok tw fnt mw cur"
  using assms by (auto simp: line_ok_def)

lemma width_inv_split_chars:
  assumes "subadditive tw"
  shows "width_inv tw fnt mw (lines, cur, cw) \<Longrightarrow>
     width_inv tw fnt mw (split_chars tw (seg_font fnt t) mw t cs (lines, cur, cw))"
proof (induction cs arbitrary: lines cur cw)
  case Nil
  then show ?case by simp
next
  case (Cons ch rest)
  let ?sf = "seg_font fnt t"
  from Cons.prems have lw: "line_width tw fnt cur \<le> cw"
    and ok: "cw \<le> mw \<or> single_wide_char tw fnt mw cur"
    and ls: "list_all (line_ok tw fnt mw) lines"
    by (simp_all add: width_inv_def)
  show ?case
  proof (cases "cw + tw ?sf [ch] \<le> mw")
    case True
    have "line_width tw fnt (add_to_line cur t [ch]) \<le> cw + tw ?sf [ch]"
      using line_width_add_to_line [OF assms, of fnt cur t "[ch]"] lw by simp
    then have "width_inv tw fnt mw (lines, add_to_line cur t [ch], cw + tw ?sf [ch])"
      using True ls by (simp add: width_inv_def)
    from Cons.IH [OF this] True show ?thesis by (simp add: Let_def)
  next
    case False
    have c: "line_ok tw fnt mw cur" using lw ok by (rule width_inv_line_ok)
    have s: "tw ?sf [ch] \<le> mw \<or> single_wide_char tw fnt mw [Segment t [ch]]" by auto
    have "width_inv tw fnt mw
        ((if cur \<noteq> [] then lines @ [cur] else lines), [Segment t [ch]], tw ?sf [ch])"
      using ls c s by (simp add: width_inv_def)
    from Cons.IH [OF this] False show ?thesis by (simp add: Let_def)
  qed
qed

lemma width_inv_wrap_step:
  assumes "subadditive tw" and inv: "width_inv tw fnt mw st"
  shows "width_inv tw fnt mw (wrap_step tw fnt mw st seg)"
proof -
  obtain lines cur cw where st: "st = (lines, cur, cw)" by (cases st) auto
  let ?w = "tw (seg_font fnt (stype seg)) (content seg)"
  from inv have lw: "line_width tw fnt cur \<le> cw"
    and ok: "cw \<le> mw \<or> single_wide_char tw fnt mw cur"
    and ls: "list_all (line_ok tw fnt mw) lines"
    by (simp_all add: st width_inv_def)
  consider (fits) "cw + ?w \<le> mw"
    | (whole) "\<not> cw + ?w \<le> mw" "is_formatted (stype seg)" "?w \<le> mw"
    | (chars) "\<not> cw + ?w \<le> mw" "\<not> (is_formatted (stype seg) \<and> ?w \<le> mw)"
    by blast
  then show ?thesis
  proof cases
    case fits
    have "line_width tw fnt (add_to_line cur (stype seg) (content seg)) \<le> cw + ?w"
      using line_width_add_to_line [OF assms(1), of fnt cur "stype seg" "content seg"] lw
      by simp
    then show ?thesis using fits ls by (simp add: st wrap_step_fits width_inv_def)
  next
    case whole
    have c: "line_ok tw fnt mw cur" using lw ok by (rule width_inv_line_ok)
    show ?thesis using whole ls c by (simp add: st wrap_step_whole width_inv_def)
  next
    case chars
    then have "wrap_step tw fnt mw (lines, cur, cw) seg =
        split_chars tw (seg_font fnt (stype seg)) mw (stype seg) (content seg) (lines, cur, cw)"
      by (rule wrap_step_chars)
    then show ?thesis
      using width_inv_split_chars [OF assms(1), of fnt mw lines cur cw] inv by (simp add: st)
  qed
qed

lemma width_inv_foldl:
  assumes "subadditive tw"
  shows "width_inv tw fnt mw st \<Longrightarrow> width_inv tw fnt mw (foldl (wrap_step tw fnt mw) st segs)"
  by (induction segs arbitrary: st) (simp_all add: width_inv_wrap_step [OF assms])

text \<open>
  Where the wrapper does keep the bound: under a measure for which a text is never wider
  than its parts together, and with a limit that is not negative, every line is within the
  limit or is one single character wider than the limit.
\<close>

lemma wrap_formatted_text_width_bound_subadditive:
  assumes "subadditive tw" and "0 \<le> max_width"
  shows "list_all (line_ok tw fnt max_width) (wrap_formatted_text tw segments fnt max_width)"
proof -
  obtain lines cur cw where r: "wrap_loop tw fnt max_width segments = (lines, cur, cw)"
    by (cases "wrap_loop tw fnt max_width segments") auto
  have "width_inv tw fnt max_width ([], [], 0)"
    using assms(2) by (simp add: width_inv_def)
  then have "width_inv tw fnt max_width (wrap_loop tw fnt max_width segments)"
    unfolding wrap_loop_def by (rule width_inv_foldl [OF assms(1)])
  with r have lw: "line_width tw fnt cur \<le> cw"
    and ok: "cw \<le> max_width \<or> single_wide_char tw fnt max_width cur"
    and ls: "list_all (line_ok tw fnt max_width) lines"
    by (simp_all add: width_inv_def)
  have c: "line_ok tw fnt max_width cur" using lw ok by (rule width_inv_line_ok)
  have e: "line_ok tw fnt max_width []" using assms(2) by (simp add: line_ok_def)
  show ?thesis using r c e ls by (simp add: wrap_formatted_text_def Let_def)
qed

text \<open>
  Claim C6. Every line of the wrapper is said to have a sum of measured span widths of at
  most the limit, unless it is one single character wider than the limit, for every measure.
  The wrapper adds up the widths of the pieces it places and joins pieces of the same type
  into one segment, which it never measures; the plain wrapper \<^verbatim>\<open>_wrap_text\<close> measures
  the whole line it is about to produce. Under a measure for which a text can be wider than
  its characters together (here: one character measures 1, three characters measure 9) and
  a limit of 3, the formatted wrapper returns the normal segment \<^verbatim>\<open>aaa\<close> on one line, of
  measured width 9, where the plain wrapper returns three lines of one character.
\<close>

theorem merged_segment_exceeds_width:
  "wrap_formatted_text sq_width [Segment Normal ''aaa''] FontBody 3 = [[Segment Normal ''aaa'']] \<and>
   line_width sq_width FontBody [Segment Normal ''aaa''] = 9 \<and>
   \<not> list_all (line_ok sq_width FontBody 3)
       (wrap_formatted_text sq_width [Segment Normal ''aaa''] FontBody 3) \<and>
   wrap_text sq_width ''aaa'' FontBody 3 = [''a'', ''a'', ''a'']"
  by (simp add: wrap_formatted_text_def wrap_loop_def wrap_step_def Let_def seg_font_def
      is_formatted_def sq_width_def add_to_line_def line_ok_def line_width_def
      wrap_text_def wrap_text_step_def)











subsection \<open>The merge loop of the tokenizer\<close>

lemma consecutive_normal_snoc:
  "consecutive_normal (xs @ [y]) =
     (consecutive_normal xs \<or> (xs \<noteq> [] \<and> stype (last xs) = Normal \<and> stype y = Normal))"
  by (induction xs rule: consecutive_normal.induct) auto

lemma merge_step_no_consecutive_normal:
  assumes "\<not> consecutive_normal merged"
  shows "\<not> consecutive_normal (merge_step merged seg)"
proof (cases "content seg \<noteq> [] \<and> merged \<noteq> [] \<and> stype seg = Normal \<and> stype (last merged) = Normal")
  case True
  then obtain ys l where m: "merged = ys @ [l]" by (metis rev_exhaust)
  with assms True have "\<not> consecutive_normal ys" "ys = [] \<or> stype (last ys) \<noteq> Normal"
    by (auto simp: consecutive_normal_snoc)
  then have "\<not> consecutive_normal (ys @ [Segment Normal (content l @ content seg)])"
    by (auto simp: consecutive_normal_snoc)
  with True m show ?thesis by (simp add: merge_step_def)
next
  case False
  with assms show ?thesis by (auto simp: merge_step_def consecutive_normal_snoc)
qed

lemma merge_fold_no_consecutive_normal:
  "\<not> consecutive_normal merged \<Longrightarrow> \<not> consecutive_normal (foldl merge_step merged segs)"
  by (induction segs arbitrary: merged) (simp_all add: merge_step_no_consecutive_normal)

text \<open>
  Claim C8, as amended. The tokenizer never returns two consecutive normal segments: the
  merge loop joins a normal segment to a normal predecessor. Segments of any other type are
  appended as they are.
\<close>

theorem parse_inline_format_no_consecutive_normal:
  "\<not> consecutive_normal (parse_inline_format text)"
proof -
  have "\<not> consecutive_normal (foldl merge_step [] (parse_loop text 0 []))"
    by (rule merge_fold_no_consecutive_normal) simp
  then show ?thesis by (simp add: parse_inline_format_def Let_def)
qed

text \<open>
  Claim C8 as stated, for segments of any type, fails: two bold runs that touch give two
  consecutive bold segments.
\<close>

theorem consecutive_bold_counterexample:
  "parse_inline_format ''**a****b**'' = [Segment Bold ''a'', Segment Bold ''b''] \<and>
   consecutive_same_kind (parse_inline_format ''**a****b**'')"
  by code_simp

subsection \<open>Estimated and rendered height\<close>

lemma advance_lines_eq: "advance_lines spacing lines y = y + int (length lines) * spacing"
  unfolding advance_lines_def
  by (induction lines arbitrary: y) (simp_all add: algebra_simps)

text \<open>
  For a paragraph and for a horizontal rule the estimate is the height the renderer uses:
  both call the tokenizer and the formatted wrapper with the same arguments.
\<close>

lemma paragraph_height_matches_render:
  "render_element tw style (Paragraph c) y max_width - y =
   calculate_element_height tw style (Paragraph c) max_width"
  by (simp add: Let_def advance_lines_eq)

lemma hr_height_matches_render:
  "render_element tw style Hr y max_width - y = calculate_element_height tw style Hr max_width"
  by simp

lemma wrap_text_single_char: "wrap_text tw [ch] fnt max_width = [[ch]]"
  by (simp add: wrap_text_def wrap_text_step_def Let_def)

text \<open>
  Claim C1. The estimate of a block is said to equal the vertical space the renderer
  consumes for it, for every block kind; the estimator's own comment asks for the wrapping
  used by the renderer. For a heading the estimator leaves out the gap the renderer adds
  after the lines: for the first-level heading \<^verbatim>\<open>A\<close> under the default style it returns 72
  where the renderer advances by 92, whatever the measure and the width. (Code blocks differ
  by the constant, quotes and lists by the wrapper, the width and the constant.)
\<close>

theorem heading_height_differs_from_render:
  "calculate_element_height tw default_style (H1 ''A'') max_width = 72 \<and>
   render_element tw default_style (H1 ''A'') y max_width - y = 92"
  by (simp add: wrap_text_single_char advance_lines_eq default_style_def)

lemma length_split_nl_aux_newlines:
  "length (split_nl_aux acc (replicate n NL)) = n + 1"
  by (induction n arbitrary: acc) simp_all

text \<open>
  Claim C2. For a code block of 50 lines at a code line spacing of 50 the estimate is said
  to be \<open>50 * 50 + 30 = 2530\<close>, and 2550 with the gap after the block. The renderer draws a
  block of height 2530 and advances by 2550; the estimator adds the constant 40 and returns
  2540.
\<close>

theorem code_block_50_lines_heights:
  "length (split_nl (replicate 49 NL)) = 50 \<and>
   code_line_spacing default_style = 50 \<and>
   calculate_element_height tw default_style (CodeBlock (replicate 49 NL) lang) max_width = 2540 \<and>
   render_element tw default_style (CodeBlock (replicate 49 NL) lang) y max_width - y = 2550"
  by (simp add: split_nl_def length_split_nl_aux_newlines Let_def default_style_def)

subsection \<open>The scan loop on the rest of the text\<close>

lemma shift_simps [simp]: "shift i None = None" "shift i (Some (sg, j)) = Some (sg, i + j)"
  by (simp_all add: shift_def)












lemma scan_Nil [simp]: "scan [] = []"
  by (simp add: scan_def parse_loop.simps)



subsection \<open>The attempts on a delimiter pair\<close>














lemma special_simps:
  "special CHR ''*''" "special CHR ''_''" "special CHR 0x60" "special CHR ''=''"
  by (simp_all add: special_def)













lemma markup_Cons [simp]: "markup (p # ps) = piece_markup p @ markup ps"
  by (simp add: markup_def)

lemma markup_Nil [simp]: "markup [] = []"
  by (simp add: markup_def)



subsection \<open>The tokenizer on balanced texts\<close>

lemma line_text_append [simp]: "line_text (xs @ ys) = line_text xs @ line_text ys"
  by (simp add: line_text_def)














end
